theory Spec2Isabelle
  imports Main "HOL-Library.AList"
begin

section \<open>Syntax trees\<close>

text \<open>
  The analysed program is a Python syntax tree as \<^verbatim>\<open>ast.parse\<close> returns it. Only the node
  classes that \<^verbatim>\<open>flowdoc/parser.py\<close> inspects get a constructor of their own; every other
  node class is \<open>Other\<close>, which carries its child nodes in field order, because that is all
  that \<^verbatim>\<open>NodeVisitor.generic_visit\<close> and \<^verbatim>\<open>ast.walk\<close> look at. The fields are listed in
  the order of the class's \<^verbatim>\<open>_fields\<close>:

  \<^item> \<open>Module body\<close>;
  \<^item> \<open>ClassDef name bases keywords body decorator_list type_params\<close>;
  \<^item> \<open>FunctionDef is_async name args body decorator_list rest\<close>, for both \<^verbatim>\<open>FunctionDef\<close>
    and \<^verbatim>\<open>AsyncFunctionDef\<close> (the parser tests for the pair of classes everywhere);
    \<open>rest\<close> holds the child nodes of the fields after \<^verbatim>\<open>decorator_list\<close> (the return
    annotation and the type parameters);
  \<^item> \<open>If test body orelse\<close>, \<open>Expr value\<close>, \<open>Call func args keywords lineno\<close>,
    \<open>Await value\<close>, \<open>Name id\<close>, \<open>Attribute value attr\<close>, \<open>Constant value\<close>;
  \<^item> \<open>Keyword arg value\<close> is \<^verbatim>\<open>ast.keyword\<close>; \<open>arg\<close> is \<open>None\<close> for \<^verbatim>\<open>**mapping\<close>.

  The expression-context children (\<^verbatim>\<open>Load\<close>, \<^verbatim>\<open>Store\<close>) and the type-ignore comments of
  a module are left out: they are leaves of no class the parser looks at.
\<close>

datatype literal =
    CStr string
  | CBytes string
  | CInt int
  | CFloat string
  | CBool bool
  | CNone
  | CEllipsis

datatype node =
    Module "node list"
  | ClassDef string "node list" "keyword list" "node list" "node list" "node list"
  | FunctionDef bool string node "node list" "node list" "node list"
  | If node "node list" "node list"
  | Expr node
  | Call node "node list" "keyword list" nat
  | Await node
  | Name string
  | Attribute node string
  | Constant literal
  | Other "node list"
and keyword =
    Keyword "string option" node

section \<open>The data model\<close>

text \<open>
  \<^verbatim>\<open>flowdoc/models.py\<close> is not among the sources; the three records below have the fields
  with which \<^verbatim>\<open>parser.py\<close> constructs and reads \<^verbatim>\<open>Edge\<close>, \<^verbatim>\<open>StepData\<close> and \<^verbatim>\<open>FlowData\<close>.
  An \<^verbatim>\<open>Edge\<close> built without \<^verbatim>\<open>line_number\<close> has none, a \<^verbatim>\<open>StepData\<close> built without
  \<^verbatim>\<open>calls\<close> has the empty list. The fields \<^verbatim>\<open>name\<close>, \<^verbatim>\<open>type\<close> and \<^verbatim>\<open>description\<close> of
  \<^verbatim>\<open>FlowData\<close> are \<open>flow_name\<close>, \<open>flow_type\<close> and \<open>flow_description\<close> here, apart from the
  fields of \<^verbatim>\<open>StepData\<close> of the same names.
\<close>

record Edge =
  from_step :: string
  to_step :: string
  branch :: "string option"
  line_number :: "nat option"

record StepData =
  name :: string
  function_name :: string
  description :: string
  docstring :: "string option"
  calls :: "Edge list"

record FlowData =
  flow_name :: string
  flow_type :: string
  steps :: "StepData list"
  edges :: "Edge list"
  flow_description :: string

section \<open>FlowCallVisitor\<close>

record FlowCallVisitor =
  decorated_steps :: "string set"
  calls_to_steps :: "Edge list"
  current_branch :: "string option"

text \<open>
  The first half of \<^verbatim>\<open>visit_Call\<close>: the candidate target of a call is the attribute of a
  method call on \<^verbatim>\<open>self\<close>, or the identifier of a direct call.
\<close>

fun call_target :: "node \<Rightarrow> string option" where
  "call_target (Attribute (Name i) a) = (if i = ''self'' then Some a else None)"
| "call_target (Name i) = Some i"
| "call_target _ = None"

text \<open>
  The test \<^verbatim>\<open>if target_name and target_name in self.decorated_steps\<close>: Python's truth test
  rejects \<^verbatim>\<open>None\<close> and the empty string.
\<close>

definition record_call :: "node \<Rightarrow> nat \<Rightarrow> FlowCallVisitor \<Rightarrow> FlowCallVisitor" where
  "record_call f ln v =
     (case call_target f of
        None \<Rightarrow> v
      | Some t \<Rightarrow>
          if t \<noteq> [] \<and> t \<in> decorated_steps v
          then v\<lparr>calls_to_steps := calls_to_steps v @
                 [\<lparr>from_step = [], to_step = t, branch = current_branch v,
                   line_number = Some ln\<rparr>]\<rparr>
          else v)"

text \<open>
  \<^verbatim>\<open>NodeVisitor.visit\<close> dispatches on the node class: \<^verbatim>\<open>visit_Call\<close>, \<^verbatim>\<open>visit_Await\<close> and
  \<^verbatim>\<open>visit_If\<close> for the three classes the visitor overrides, \<^verbatim>\<open>generic_visit\<close> (every child
  node, in field order) for the rest. \<^verbatim>\<open>visit_If\<close> never touches \<^verbatim>\<open>node.test\<close>.
\<close>

fun visit :: "node \<Rightarrow> FlowCallVisitor \<Rightarrow> FlowCallVisitor"
  and visit_keyword :: "keyword \<Rightarrow> FlowCallVisitor \<Rightarrow> FlowCallVisitor" where
  "visit (Call f as kws ln) v =
     fold (\<lambda>k s. visit_keyword k s) kws
       (fold (\<lambda>a s. visit a s) as (visit f (record_call f ln v)))"
| "visit (Await x) v = visit x v"
| "visit (If t body orelse) v =
     (let old_branch = current_branch v;
          v1 = fold (\<lambda>c s. visit c s) body (v\<lparr>current_branch := Some ''if''\<rparr>);
          v2 = (if orelse \<noteq> []
                then fold (\<lambda>c s. visit c s) orelse (v1\<lparr>current_branch := Some ''else''\<rparr>)
                else v1)
      in v2\<lparr>current_branch := old_branch\<rparr>)"
| "visit (Module body) v = fold (\<lambda>c s. visit c s) body v"
| "visit (ClassDef n bases kws body decs tps) v =
     fold (\<lambda>c s. visit c s) tps
       (fold (\<lambda>c s. visit c s) decs
         (fold (\<lambda>c s. visit c s) body
           (fold (\<lambda>k s. visit_keyword k s) kws
             (fold (\<lambda>c s. visit c s) bases v))))"
| "visit (FunctionDef a n args body decs rest) v =
     fold (\<lambda>c s. visit c s) rest
       (fold (\<lambda>c s. visit c s) decs
         (fold (\<lambda>c s. visit c s) body (visit args v)))"
| "visit (Expr x) v = visit x v"
| "visit (Name i) v = v"
| "visit (Attribute x a) v = visit x v"
| "visit (Constant c) v = v"
| "visit (Other cs) v = fold (\<lambda>c s. visit c s) cs v"
| "visit_keyword (Keyword a x) v = visit x v"

definition find_step_calls :: "node \<Rightarrow> string set \<Rightarrow> Edge list" where
  "find_step_calls function_node steps_known =
     calls_to_steps
       (visit function_node
          \<lparr>decorated_steps = steps_known, calls_to_steps = [], current_branch = None\<rparr>)"

section \<open>Diagnostics and errors\<close>

text \<open>
  \<^verbatim>\<open>warnings.warn(message, UserWarning)\<close> is an effect: every function that can warn
  returns the warnings it emitted, in order, beside its result. The exceptions that the
  parser raises are values of \<open>error\<close>.
\<close>

datatype warning = UserWarning string

datatype error = SyntaxError string | IndexError

definition skip_warning :: "string \<Rightarrow> warning" where
  "skip_warning a =
     UserWarning (''Skipping dynamic decorator argument '' @ [CHR 0x27] @ a @ [CHR 0x27] @
                  '' - only literal strings are supported'')"

definition cannot_parse :: "string \<Rightarrow> string \<Rightarrow> string" where
  "cannot_parse file_path e = ''Cannot parse '' @ file_path @ '': '' @ e"

section \<open>Recognising the tags\<close>

definition FLOW_DECORATOR_NAMES :: "string set" where
  "FLOW_DECORATOR_NAMES = {''flow'', ''business_flow''}"

definition STEP_DECORATOR_NAMES :: "string set" where
  "STEP_DECORATOR_NAMES = {''step'', ''business_step'', ''flow_step''}"

fun is_step_decorator :: "node \<Rightarrow> bool" where
  "is_step_decorator (Call (Name i) as kws ln) = (i \<in> STEP_DECORATOR_NAMES)"
| "is_step_decorator (Call (Attribute x a) as kws ln) = (a \<in> STEP_DECORATOR_NAMES)"
| "is_step_decorator (Name i) = (i \<in> STEP_DECORATOR_NAMES)"
| "is_step_decorator _ = False"

fun is_flow_decorator :: "node \<Rightarrow> bool" where
  "is_flow_decorator (Call (Name i) as kws ln) = (i \<in> FLOW_DECORATOR_NAMES)"
| "is_flow_decorator (Call (Attribute x a) as kws ln) = (a \<in> FLOW_DECORATOR_NAMES)"
| "is_flow_decorator (Name i) = (i \<in> FLOW_DECORATOR_NAMES)"
| "is_flow_decorator _ = False"

text \<open>
  \<^verbatim>\<open>_has_step_decorator\<close> is only called on function definitions and
  \<^verbatim>\<open>_has_flow_decorator\<close> only on class definitions; the last equation of each is never
  reached.
\<close>

fun has_step_decorator :: "node \<Rightarrow> bool" where
  "has_step_decorator (FunctionDef a n args body decs rest) = list_ex is_step_decorator decs"
| "has_step_decorator _ = False"

fun has_flow_decorator :: "node \<Rightarrow> bool" where
  "has_flow_decorator (ClassDef n bases kws body decs tps) = list_ex is_flow_decorator decs"
| "has_flow_decorator _ = False"

fun is_function_def :: "node \<Rightarrow> bool" where
  "is_function_def (FunctionDef a n args body decs rest) = True"
| "is_function_def _ = False"

fun node_name :: "node \<Rightarrow> string" where
  "node_name (FunctionDef a n args body decs rest) = n"
| "node_name (ClassDef n bases kws body decs tps) = n"
| "node_name _ = []"

fun node_body :: "node \<Rightarrow> node list" where
  "node_body (Module body) = body"
| "node_body (ClassDef n bases kws body decs tps) = body"
| "node_body (FunctionDef a n args body decs rest) = body"
| "node_body _ = []"

fun decorator_list :: "node \<Rightarrow> node list" where
  "decorator_list (ClassDef n bases kws body decs tps) = decs"
| "decorator_list (FunctionDef a n args body decs rest) = decs"
| "decorator_list _ = []"

section \<open>Reading the arguments of a tag\<close>

text \<open>
  One round of the loop of \<^verbatim>\<open>_extract_decorator_args\<close>. The state is the dictionary
  \<^verbatim>\<open>args\<close> and the warnings emitted so far. A keyword without a name is passed over; a
  constant is stored when it is a string and dropped otherwise; anything that is not a
  constant is warned about.
\<close>

fun extract_keyword ::
  "keyword \<Rightarrow> (string \<rightharpoonup> string) \<times> warning list \<Rightarrow> (string \<rightharpoonup> string) \<times> warning list" where
  "extract_keyword (Keyword None x) st = st"
| "extract_keyword (Keyword (Some a) (Constant (CStr s))) st = ((fst st)(a \<mapsto> s), snd st)"
| "extract_keyword (Keyword (Some a) (Constant c)) st = st"
| "extract_keyword (Keyword (Some a) x) st = (fst st, snd st @ [skip_warning a])"

fun extract_decorator_args :: "node \<Rightarrow> (string \<rightharpoonup> string) \<times> warning list" where
  "extract_decorator_args (Call f as kws ln) = fold extract_keyword kws (Map.empty, [])"
| "extract_decorator_args _ = (Map.empty, [])"

text \<open>\<^verbatim>\<open>args.get(key, default)\<close>.\<close>

definition get_default :: "(string \<rightharpoonup> string) \<Rightarrow> string \<Rightarrow> string \<Rightarrow> string" where
  "get_default d k dflt = (case d k of None \<Rightarrow> dflt | Some x \<Rightarrow> x)"

text \<open>
  \<^verbatim>\<open>ast.get_docstring\<close>: the string constant that is the first statement of the body. The
  re-indentation that \<^verbatim>\<open>inspect.cleandoc\<close> then applies to the text is not modelled:
  \<open>docstring\<close> holds the text as written.
\<close>

fun get_docstring :: "node list \<Rightarrow> string option" where
  "get_docstring (Expr (Constant (CStr s)) # rest) = Some s"
| "get_docstring _ = None"

text \<open>
  \<^verbatim>\<open>_extract_step_metadata\<close>: the arguments of the first step tag in the decorator list,
  and no others (the loop breaks there).
\<close>

definition extract_step_metadata :: "node \<Rightarrow> StepData \<times> warning list" where
  "extract_step_metadata func_node =
     (let n = node_name func_node;
          doc = get_docstring (node_body func_node)
      in case find is_step_decorator (decorator_list func_node) of
           None \<Rightarrow>
             (\<lparr>name = n, function_name = n, description = [], docstring = doc, calls = []\<rparr>, [])
         | Some decorator \<Rightarrow>
             (let r = extract_decorator_args decorator
              in (\<lparr>name = get_default (fst r) ''name'' n, function_name = n,
                   description = get_default (fst r) ''description'' [],
                   docstring = doc, calls = []\<rparr>, snd r)))"

section \<open>Collecting the steps of a file\<close>

text \<open>
  \<^verbatim>\<open>ast.walk\<close> is a breadth-first traversal with a queue: it takes the first node of the
  queue, appends that node's children to the queue and yields the node. The objects in
  the queue are nodes and keywords.
\<close>

fun iter_child_nodes :: "node + keyword \<Rightarrow> (node + keyword) list" where
  "iter_child_nodes (Inl (Module body)) = map Inl body"
| "iter_child_nodes (Inl (ClassDef n bases kws body decs tps)) =
     map Inl bases @ map Inr kws @ map Inl body @ map Inl decs @ map Inl tps"
| "iter_child_nodes (Inl (FunctionDef a n args body decs rest)) =
     Inl args # map Inl body @ map Inl decs @ map Inl rest"
| "iter_child_nodes (Inl (If t body orelse)) = Inl t # map Inl body @ map Inl orelse"
| "iter_child_nodes (Inl (Expr x)) = [Inl x]"
| "iter_child_nodes (Inl (Call f as kws ln)) = Inl f # map Inl as @ map Inr kws"
| "iter_child_nodes (Inl (Await x)) = [Inl x]"
| "iter_child_nodes (Inl (Name i)) = []"
| "iter_child_nodes (Inl (Attribute x a)) = [Inl x]"
| "iter_child_nodes (Inl (Constant c)) = []"
| "iter_child_nodes (Inl (Other cs)) = map Inl cs"
| "iter_child_nodes (Inr (Keyword a x)) = [Inl x]"

definition ast_size :: "node + keyword \<Rightarrow> nat" where
  "ast_size x = (case x of Inl n \<Rightarrow> Suc (size n) | Inr k \<Rightarrow> Suc (size k))"

function walk :: "(node + keyword) list \<Rightarrow> (node + keyword) list" where
  "walk [] = []"
| "walk (x # todo) = x # walk (todo @ iter_child_nodes x)"
  by pat_completeness auto
termination
proof (relation "measure (\<lambda>todo. sum_list (map ast_size todo))")
  show "wf (measure (\<lambda>todo. sum_list (map ast_size todo)))" by simp
next
  fix x :: "node + keyword" and todo
  have nodes: "sum_list (map (ast_size \<circ> Inl) ns) = size_list size ns" for ns
    by (induction ns) (simp_all add: ast_size_def)
  have kwds: "sum_list (map (ast_size \<circ> Inr) ks) = size_list size ks" for ks
    by (induction ks) (simp_all add: ast_size_def)
  have "sum_list (map ast_size (iter_child_nodes x)) < ast_size x"
  proof (cases x)
    case (Inl n)
    then show ?thesis
      by (cases n) (simp_all add: nodes kwds ast_size_def)
  next
    case (Inr k)
    then show ?thesis by (cases k) (simp add: ast_size_def)
  qed
  then show "(todo @ iter_child_nodes x, x # todo) \<in> measure (\<lambda>todo. sum_list (map ast_size todo))"
    by simp
qed

text \<open>
  \<^verbatim>\<open>_collect_all_steps\<close>: a dictionary from the name of every tagged function definition
  to its node. A Python dictionary keeps a key at the place of its first insertion and
  the value of its last, which is what \<open>AList.update\<close> does on an association list.
\<close>

fun collect_step :: "node + keyword \<Rightarrow> (string \<times> node) list \<Rightarrow> (string \<times> node) list" where
  "collect_step (Inl n) steps_found =
     (if is_function_def n \<and> has_step_decorator n
      then AList.update (node_name n) n steps_found else steps_found)"
| "collect_step (Inr k) steps_found = steps_found"

definition collect_all_steps :: "node \<Rightarrow> (string \<times> node) list" where
  "collect_all_steps tree = fold collect_step (walk [Inl tree]) []"

section \<open>Assembling flows\<close>

text \<open>
  The loop that \<^verbatim>\<open>_extract_class_flow\<close> runs over its decorated methods and
  \<^verbatim>\<open>_create_function_flow\<close> over its functions: extract the metadata, find the calls to
  known steps, store them in the step, and add one edge per call, from the name under
  which the loop knows the function (the dictionary key for a method, \<^verbatim>\<open>func_node.name\<close>
  for a function). The state is the lists \<^verbatim>\<open>steps\<close> and \<^verbatim>\<open>edges\<close> and the warnings.
\<close>

definition call_edge :: "string \<Rightarrow> Edge \<Rightarrow> Edge" where
  "call_edge source_name call =
     \<lparr>from_step = source_name, to_step = to_step call, branch = branch call,
      line_number = None\<rparr>"

definition add_step ::
  "string set \<Rightarrow> string \<times> node \<Rightarrow> StepData list \<times> Edge list \<times> warning list
     \<Rightarrow> StepData list \<times> Edge list \<times> warning list" where
  "add_step callable_steps item st =
     (let r = extract_step_metadata (snd item);
          connections = find_step_calls (snd item) callable_steps
      in (fst st @ [(fst r)\<lparr>calls := connections\<rparr>],
          fst (snd st) @ map (call_edge (fst item)) connections,
          snd (snd st) @ snd r))"

fun is_class_def :: "node \<Rightarrow> bool" where
  "is_class_def (ClassDef n bases kws body decs tps) = True"
| "is_class_def _ = False"

definition add_method :: "node \<Rightarrow> (string \<times> node) list \<Rightarrow> (string \<times> node) list" where
  "add_method n decorated_methods =
     (if is_function_def n \<and> has_step_decorator n
      then AList.update (node_name n) n decorated_methods else decorated_methods)"

text \<open>
  \<^verbatim>\<open>_extract_class_flow\<close>. The parameter \<^verbatim>\<open>all_steps\<close> is a dictionary of which only the
  keys are read. The result is \<open>None\<close> for a class without a flow tag.
\<close>

definition extract_class_flow ::
  "node \<Rightarrow> (string \<times> 'a) list \<Rightarrow> FlowData option \<times> warning list" where
  "extract_class_flow class_node all_steps =
     (if \<not> has_flow_decorator class_node then (None, [])
      else
        (let r = (case find is_flow_decorator (decorator_list class_node) of
                    None \<Rightarrow> (Map.empty, [])
                  | Some decorator \<Rightarrow> extract_decorator_args decorator);
             decorated_methods = fold add_method (node_body class_node) [];
             callable_steps = set (map fst all_steps);
             l = fold (add_step callable_steps) decorated_methods ([], [], [])
         in (Some \<lparr>flow_name = get_default (fst r) ''name'' (node_name class_node),
                   flow_type = ''class'', steps = fst l, edges = fst (snd l),
                   flow_description = get_default (fst r) ''description'' []\<rparr>,
             snd r @ snd (snd l))))"

definition extract_function_steps :: "node \<Rightarrow> (string \<times> 'a) list \<Rightarrow> node list" where
  "extract_function_steps tree all_steps =
     filter (\<lambda>n. is_function_def n \<and> node_name n \<in> set (map fst all_steps)) (node_body tree)"

definition create_function_flow ::
  "node list \<Rightarrow> (string \<times> 'a) list \<Rightarrow> FlowData \<times> warning list" where
  "create_function_flow function_steps all_steps =
     (let callable_steps = set (map fst all_steps);
          l = fold (add_step callable_steps) (map (\<lambda>n. (node_name n, n)) function_steps)
                ([], [], [])
      in (\<lparr>flow_name = ''Function Flow'', flow_type = ''function'', steps = fst l,
           edges = fst (snd l),
           flow_description = ''Flow derived from standalone function''\<rparr>,
          snd (snd l)))"

text \<open>
  The two passes that \<^verbatim>\<open>parse_file\<close> and \<^verbatim>\<open>_parse_tree_with_registry\<close> share: one flow
  for every class of the module body that \<^verbatim>\<open>_extract_class_flow\<close> accepts (a \<^verbatim>\<open>FlowData\<close>
  object is always true), then the implicit flow when the list of function steps is not
  empty. \<open>call_steps\<close> is the dictionary given to the call detection, \<open>local_steps\<close> the
  one given to \<^verbatim>\<open>_extract_function_steps\<close>.
\<close>

definition add_class_flow ::
  "(string \<times> 'a) list \<Rightarrow> node \<Rightarrow> FlowData list \<times> warning list \<Rightarrow> FlowData list \<times> warning list" where
  "add_class_flow all_steps n st =
     (if is_class_def n
      then (case extract_class_flow n all_steps of
              (None, w) \<Rightarrow> (fst st, snd st @ w)
            | (Some flow_data, w) \<Rightarrow> (fst st @ [flow_data], snd st @ w))
      else st)"

definition tree_flows ::
  "node \<Rightarrow> (string \<times> 'a) list \<Rightarrow> (string \<times> 'b) list \<Rightarrow> FlowData list \<times> warning list" where
  "tree_flows tree call_steps local_steps =
     (let c = fold (add_class_flow call_steps) (node_body tree) ([], []);
          function_steps = extract_function_steps tree local_steps
      in if function_steps \<noteq> []
         then (let f = create_function_flow function_steps call_steps
               in (fst c @ [fst f], snd c @ snd f))
         else c)"

text \<open>
  \<^verbatim>\<open>parse_file\<close>. The file is given by its path and by what \<^verbatim>\<open>ast.parse\<close> makes of its
  text: the message of the \<^verbatim>\<open>SyntaxError\<close>, or the tree. Failures to open or decode the
  file are outside the model.
\<close>

definition parse_file :: "string \<Rightarrow> string + node \<Rightarrow> error + FlowData list \<times> warning list" where
  "parse_file file_path parsed =
     (case parsed of
        Inl e \<Rightarrow> Inl (SyntaxError (cannot_parse file_path e))
      | Inr tree \<Rightarrow>
          (let all_steps = collect_all_steps tree
           in Inr (tree_flows tree all_steps all_steps)))"

section \<open>StepRegistry\<close>

record StepRegistry =
  registry_steps :: "(string \<times> StepData) list"
  module_steps :: "(string \<times> string list) list"

definition empty_registry :: StepRegistry where
  "empty_registry = \<lparr>registry_steps = [], module_steps = []\<rparr>"

definition register :: "string \<Rightarrow> StepData \<Rightarrow> StepRegistry \<Rightarrow> StepRegistry" where
  "register module_path step reg =
     (let qualified_name = module_path @ ''.'' @ function_name step;
          known = (case map_of (module_steps reg) module_path of None \<Rightarrow> [] | Some l \<Rightarrow> l)
      in \<lparr>registry_steps = AList.update qualified_name step (registry_steps reg),
          module_steps = AList.update module_path (known @ [qualified_name]) (module_steps reg)\<rparr>)"

text \<open>\<^verbatim>\<open>str.endswith\<close>.\<close>

definition endswith :: "string \<Rightarrow> string \<Rightarrow> bool" where
  "endswith s suffix_text =
     (length suffix_text \<le> length s \<and> drop (length s - length suffix_text) s = suffix_text)"

definition resolve :: "StepRegistry \<Rightarrow> string \<Rightarrow> string \<Rightarrow> StepData option" where
  "resolve reg from_module call_name =
     (case map_of (registry_steps reg) call_name of
        Some step \<Rightarrow> Some step
      | None \<Rightarrow>
          (case map_of (registry_steps reg) (from_module @ ''.'' @ call_name) of
             Some step \<Rightarrow> Some step
           | None \<Rightarrow>
               (case find (\<lambda>item. endswith (fst item) (''.'' @ call_name)) (registry_steps reg) of
                  Some item \<Rightarrow> Some (snd item)
                | None \<Rightarrow> None)))"

definition all_steps :: "StepRegistry \<Rightarrow> StepData list" where
  "all_steps reg = map snd (registry_steps reg)"

section \<open>Parsing a directory\<close>



text \<open>
  A discovered file: its path, the components of its path relative to the source root,
  and the outcome of \<^verbatim>\<open>ast.parse\<close> on its text.
\<close>

record SourceFile =
  file_path :: string
  relative_parts :: "string list"
  parsed :: "string + node"







section \<open>Call sites and their enclosing conditionals\<close>

text \<open>
  The specification speaks of the two arms of a conditional, \<open>then\<close> and \<open>otherwise\<close>, and
  of the conditionals that enclose a call site. \<open>call_sites p n\<close> lists, in the
  order of the fields of the tree, every call in \<open>n\<close> that has a candidate target and
  lies outside the condition of every \<^verbatim>\<open>if\<close> statement of \<open>n\<close>, with the stack of arms
  that enclose it, innermost first, on top of the stack \<open>p\<close> that encloses \<open>n\<close> itself.
  A conditional is an \<^verbatim>\<open>if\<close> statement (with \<^verbatim>\<open>elif\<close> as the nested statement it is in
  the tree); conditional expressions and the \<^verbatim>\<open>else\<close> of a loop are ordinary nodes.
\<close>

datatype arm = Then | Otherwise

type_synonym call_site = "string \<times> arm list \<times> nat"

fun call_sites :: "arm list \<Rightarrow> node \<Rightarrow> call_site list"
  and call_sites_keyword :: "arm list \<Rightarrow> keyword \<Rightarrow> call_site list" where
  "call_sites p (Call f as kws ln) =
     (case call_target f of None \<Rightarrow> [] | Some t \<Rightarrow> [(t, p, ln)]) @
     call_sites p f @
     concat (map (\<lambda>a. call_sites p a) as) @
     concat (map (\<lambda>k. call_sites_keyword p k) kws)"
| "call_sites p (Await x) = call_sites p x"
| "call_sites p (If t body orelse) =
     concat (map (\<lambda>c. call_sites (Then # p) c) body) @
     concat (map (\<lambda>c. call_sites (Otherwise # p) c) orelse)"
| "call_sites p (Module body) = concat (map (\<lambda>c. call_sites p c) body)"
| "call_sites p (ClassDef n bases kws body decs tps) =
     concat (map (\<lambda>c. call_sites p c) bases) @
     concat (map (\<lambda>k. call_sites_keyword p k) kws) @
     concat (map (\<lambda>c. call_sites p c) body) @
     concat (map (\<lambda>c. call_sites p c) decs) @
     concat (map (\<lambda>c. call_sites p c) tps)"
| "call_sites p (FunctionDef a n args body decs rest) =
     call_sites p args @
     concat (map (\<lambda>c. call_sites p c) body) @
     concat (map (\<lambda>c. call_sites p c) decs) @
     concat (map (\<lambda>c. call_sites p c) rest)"
| "call_sites p (Expr x) = call_sites p x"
| "call_sites p (Name i) = []"
| "call_sites p (Attribute x a) = call_sites p x"
| "call_sites p (Constant c) = []"
| "call_sites p (Other cs) = concat (map (\<lambda>c. call_sites p c) cs)"
| "call_sites_keyword p (Keyword a x) = call_sites p x"

text \<open>
  The label of an arm is the string the parser stores for it: \<^verbatim>\<open>"if"\<close> for the arm the
  specification calls \<open>then\<close>, \<^verbatim>\<open>"else"\<close> for \<open>otherwise\<close>. The label of a call site is that
  of its innermost enclosing arm, and absent when nothing encloses it.
\<close>

fun arm_label :: "arm \<Rightarrow> string" where
  "arm_label Then = ''if''"
| "arm_label Otherwise = ''else''"

fun innermost :: "arm list \<Rightarrow> string option" where
  "innermost [] = None"
| "innermost (a # p) = Some (arm_label a)"

definition site_edge :: "call_site \<Rightarrow> Edge" where
  "site_edge s =
     \<lparr>from_step = [], to_step = fst s, branch = innermost (fst (snd s)),
      line_number = Some (snd (snd s))\<rparr>"

text \<open>The edges of the call sites that pass the test of \<^verbatim>\<open>visit_Call\<close>.\<close>

definition site_edges :: "string set \<Rightarrow> call_site list \<Rightarrow> Edge list" where
  "site_edges S ss = map site_edge (filter (\<lambda>s. fst s \<noteq> [] \<and> fst s \<in> S) ss)"

definition adds :: "FlowCallVisitor \<Rightarrow> Edge list \<Rightarrow> FlowCallVisitor" where
  "adds v es = v\<lparr>calls_to_steps := calls_to_steps v @ es\<rparr>"

text \<open>\<open>map_tests g n\<close> rewrites the condition of every \<^verbatim>\<open>if\<close> statement of \<open>n\<close> with \<open>g\<close>.\<close>

fun map_tests :: "(node \<Rightarrow> node) \<Rightarrow> node \<Rightarrow> node"
  and map_tests_keyword :: "(node \<Rightarrow> node) \<Rightarrow> keyword \<Rightarrow> keyword" where
  "map_tests g (Call f as kws ln) =
     Call (map_tests g f) (map (\<lambda>a. map_tests g a) as)
       (map (\<lambda>k. map_tests_keyword g k) kws) ln"
| "map_tests g (Await x) = Await (map_tests g x)"
| "map_tests g (If t body orelse) =
     If (g t) (map (\<lambda>c. map_tests g c) body) (map (\<lambda>c. map_tests g c) orelse)"
| "map_tests g (Module body) = Module (map (\<lambda>c. map_tests g c) body)"
| "map_tests g (ClassDef n bases kws body decs tps) =
     ClassDef n (map (\<lambda>c. map_tests g c) bases) (map (\<lambda>k. map_tests_keyword g k) kws)
       (map (\<lambda>c. map_tests g c) body) (map (\<lambda>c. map_tests g c) decs)
       (map (\<lambda>c. map_tests g c) tps)"
| "map_tests g (FunctionDef a n args body decs rest) =
     FunctionDef a n (map_tests g args) (map (\<lambda>c. map_tests g c) body)
       (map (\<lambda>c. map_tests g c) decs) (map (\<lambda>c. map_tests g c) rest)"
| "map_tests g (Expr x) = Expr (map_tests g x)"
| "map_tests g (Name i) = Name i"
| "map_tests g (Attribute x a) = Attribute (map_tests g x) a"
| "map_tests g (Constant c) = Constant c"
| "map_tests g (Other cs) = Other (map (\<lambda>c. map_tests g c) cs)"
| "map_tests_keyword g (Keyword a x) = Keyword a (map_tests g x)"

text \<open>
  The example of the specification: \<^verbatim>\<open>step_b\<close> calls \<^verbatim>\<open>step_c\<close> in the first arm of a
  conditional and \<^verbatim>\<open>step_d\<close> in the second; here the conditional sits in the first arm of
  an outer one, which also calls \<^verbatim>\<open>step_e\<close> after it, and the condition of the outer one
  calls \<^verbatim>\<open>step_a\<close>.
  \<^verbatim>\<open>
  @step
  def step_b(self):            # line 2
      if self.step_a():        # line 3
          if ready:            # line 4
              self.step_c()    # line 5
          else:
              step_d()         # line 7
          await step_e()       # line 8
  \<close>
\<close>

definition method_call :: "string \<Rightarrow> nat \<Rightarrow> node" where
  "method_call n ln = Call (Attribute (Name ''self'') n) [] [] ln"

definition function_call :: "string \<Rightarrow> nat \<Rightarrow> node" where
  "function_call n ln = Call (Name n) [] [] ln"

definition example_step_b :: node where
  "example_step_b =
     FunctionDef False ''step_b'' (Other [Other []])
       [If (method_call ''step_a'' 3)
          [If (Name ''ready'')
             [Expr (method_call ''step_c'' 5)]
             [Expr (function_call ''step_d'' 7)],
           Expr (Await (function_call ''step_e'' 8))]
          []]
       [Name ''step''] []"

definition example_steps :: "string set" where
  "example_steps = {''step_a'', ''step_b'', ''step_c'', ''step_d'', ''step_e''}"

section \<open>Tag arguments by kind\<close>

fun is_constant :: "node \<Rightarrow> bool" where
  "is_constant (Constant c) = True"
| "is_constant _ = False"

fun is_string_constant :: "node \<Rightarrow> bool" where
  "is_string_constant (Constant (CStr s)) = True"
| "is_string_constant _ = False"

fun keyword_arg :: "keyword \<Rightarrow> string option" where
  "keyword_arg (Keyword a x) = a"

fun keyword_value :: "keyword \<Rightarrow> node" where
  "keyword_value (Keyword a x) = x"

text \<open>
  The names of the keyword arguments whose value is not a constant, one entry for each
  such argument, in the order of the tag.
\<close>

definition dynamic_args :: "keyword list \<Rightarrow> string list" where
  "dynamic_args kws =
     concat (map (\<lambda>k. case keyword_arg k of
                         None \<Rightarrow> []
                       | Some a \<Rightarrow> if is_constant (keyword_value k) then [] else [a]) kws)"

text \<open>The keyword passes a literal string under the name \<open>a\<close>.\<close>

definition passes_string :: "string \<Rightarrow> keyword \<Rightarrow> bool" where
  "passes_string a k = (keyword_arg k = Some a \<and> is_string_constant (keyword_value k))"



definition numbered_keywords :: "keyword list" where
  "numbered_keywords =
     [Keyword (Some ''name'') (Constant (CInt 42)),
      Keyword (Some ''description'') (Constant CNone)]"

section \<open>Resolution as the specification words it\<close>

text \<open>
  The third rule of the specification compares the called name with the trailing segment
  of a key, the text after its last separator (the whole key when it has no separator).
\<close>

definition trailing_segment :: "string \<Rightarrow> string" where
  "trailing_segment q = rev (takeWhile (\<lambda>c. c \<noteq> CHR ''.'') (rev q))"

definition resolve_spec :: "StepRegistry \<Rightarrow> string \<Rightarrow> string \<Rightarrow> StepData option" where
  "resolve_spec reg calling_module called_name =
     (case map_of (registry_steps reg) called_name of
        Some step \<Rightarrow> Some step
      | None \<Rightarrow>
          (case map_of (registry_steps reg) (calling_module @ ''.'' @ called_name) of
             Some step \<Rightarrow> Some step
           | None \<Rightarrow>
               (case find (\<lambda>item. trailing_segment (fst item) = called_name)
                       (registry_steps reg) of
                  Some item \<Rightarrow> Some (snd item)
                | None \<Rightarrow> None)))"

definition charge_step :: StepData where
  "charge_step = \<lparr>name = ''Charge'', function_name = ''charge'', description = [],
                   docstring = None, calls = []\<rparr>"

definition payments_registry :: StepRegistry where
  "payments_registry = register ''shop.payments'' charge_step empty_registry"

section \<open>Files of a run and the steps known in it\<close>


text \<open>The names under which the steps of a file are collected, and those of a whole run.\<close>

definition step_names :: "node \<Rightarrow> string set" where
  "step_names tree = fst ` set (collect_all_steps tree)"












text \<open>
  A file in which a function without a tag bears the name of a tagged method:
  \<^verbatim>\<open>
  class Mailer:
      @step(name="Notify customer")      # line 2
      def notify(self):
          "Send the mail."

  def notify(): pass
  \<close>
\<close>

definition untagged_notify :: node where
  "untagged_notify = FunctionDef False ''notify'' (Other []) [Other []] [] []"

definition shadowing_module :: node where
  "shadowing_module =
     Module
       [ClassDef ''Mailer'' [] []
          [FunctionDef False ''notify'' (Other [Other []])
             [Expr (Constant (CStr ''Send the mail.''))]
             [Call (Name ''step'') []
                [Keyword (Some ''name'') (Constant (CStr ''Notify customer''))] 2]
             []]
          [] [],
        untagged_notify]"

section \<open>Properties of the visitor\<close>

lemma site_edges_append [simp]: "site_edges S (xs @ ys) = site_edges S xs @ site_edges S ys"
  by (simp add: site_edges_def)

lemma site_edges_Nil [simp]: "site_edges S [] = []"
  by (simp add: site_edges_def)

lemma adds_simps [simp]:
  "current_branch (adds v es) = current_branch v"
  "decorated_steps (adds v es) = decorated_steps v"
  "adds (adds v es) fs = adds v (es @ fs)"
  "adds v [] = v"
  by (simp_all add: adds_def)

text \<open>A loop over children, each of which only appends the edges of its own call sites.\<close>

lemma fold_adds:
  assumes "\<And>c v. c \<in> set cs \<Longrightarrow> current_branch v = b \<Longrightarrow>
             f c v = adds v (site_edges (decorated_steps v) (g c))"
  shows "current_branch v = b \<Longrightarrow>
           fold f cs v = adds v (site_edges (decorated_steps v) (concat (map g cs)))"
  using assms
proof (induction cs arbitrary: v)
  case Nil
  then show ?case by simp
next
  case (Cons c cs)
  then show ?case by simp
qed

lemma record_call_adds:
  "current_branch v = innermost p \<Longrightarrow>
   record_call f ln v =
     adds v (site_edges (decorated_steps v)
       (case call_target f of None \<Rightarrow> [] | Some t \<Rightarrow> [(t, p, ln)]))"
  by (simp add: record_call_def adds_def site_edges_def site_edge_def split: option.splits)

text \<open>
  The single slot of the visitor holds the label of the top of the stack of enclosing
  arms throughout the walk, and is restored on the way out.
\<close>

lemma visit_adds:
  "current_branch v = innermost p \<Longrightarrow>
     visit n v = adds v (site_edges (decorated_steps v) (call_sites p n))"
  and "current_branch v = innermost p \<Longrightarrow>
     visit_keyword k v = adds v (site_edges (decorated_steps v) (call_sites_keyword p k))"
proof (induction p n and p k arbitrary: v and v rule: call_sites_call_sites_keyword.induct)
  case (1 p f as kws ln)
  then show ?case
    by (simp add: record_call_adds [of _ p] fold_adds [where b = "innermost p"])
next
  case (3 p t body orelse)
  let ?S = "decorated_steps v"
  let ?vi = "v\<lparr>current_branch := Some ''if''\<rparr>"
  have b: "fold (\<lambda>c s. visit c s) body ?vi =
             adds ?vi (site_edges ?S (concat (map (\<lambda>c. call_sites (Then # p) c) body)))"
    using fold_adds [where b = "innermost (Then # p)" and cs = body and v = ?vi
        and f = "\<lambda>c s. visit c s" and g = "\<lambda>c. call_sites (Then # p) c"] "3.IH"(1)
    by simp
  let ?v1 = "fold (\<lambda>c s. visit c s) body ?vi"
  let ?ve = "?v1\<lparr>current_branch := Some ''else''\<rparr>"
  have e: "fold (\<lambda>c s. visit c s) orelse ?ve =
             adds ?ve (site_edges ?S (concat (map (\<lambda>c. call_sites (Otherwise # p) c) orelse)))"
    using fold_adds [where b = "innermost (Otherwise # p)" and cs = orelse and v = ?ve
        and f = "\<lambda>c s. visit c s" and g = "\<lambda>c. call_sites (Otherwise # p) c"] "3.IH"(2) b
    by simp
  show ?case
  proof (cases "orelse = []")
    case True
    then show ?thesis using b "3.prems" by (simp add: Let_def adds_def)
  next
    case False
    then show ?thesis using b e "3.prems" by (simp add: Let_def adds_def)
  qed
next
  case (4 p body)
  then show ?case by (simp add: fold_adds [where b = "innermost p"])
next
  case (5 p n bases kws body decs tps)
  then show ?case by (simp add: fold_adds [where b = "innermost p"])
next
  case (6 p a n args body decs rest)
  then show ?case by (simp add: fold_adds [where b = "innermost p"])
next
  case (11 p cs)
  then show ?case by (simp add: fold_adds [where b = "innermost p"])
qed simp_all

lemma find_step_calls_sites: "find_step_calls fn S = site_edges S (call_sites [] fn)"
  using visit_adds(1)
    [of "\<lparr>decorated_steps = S, calls_to_steps = [], current_branch = None\<rparr>" "[]" fn]
  by (simp add: find_step_calls_def adds_def)

lemma example_step_b_sites:
  "call_sites [] example_step_b =
     [(''step_c'', [Then, Then], 5), (''step_d'', [Otherwise, Then], 7),
      (''step_e'', [Then], 8)]"
  by (simp add: example_step_b_def method_call_def function_call_def)

text \<open>
  C1. For every step body, the edges that the visitor records are, in order, the
  calls to known steps among the call sites of the body, each labelled with the arm of
  the innermost conditional that encloses it (\<^verbatim>\<open>"if"\<close> for the first arm, \<^verbatim>\<open>"else"\<close> for the
  second) and with no label when no conditional encloses it. A call in a conditional
  nested in an outer first arm carries the label of the nested conditional.
\<close>

theorem branch_label_innermost:
  "find_step_calls fn S =
     map (\<lambda>s. \<lparr>from_step = [], to_step = fst s, branch = innermost (fst (snd s)),
               line_number = Some (snd (snd s))\<rparr>)
       (filter (\<lambda>s. fst s \<noteq> [] \<and> fst s \<in> S) (call_sites [] fn))"
  using find_step_calls_sites [of fn S] by (simp add: site_edges_def site_edge_def)

theorem branch_label_innermost_witness:
  "find_step_calls example_step_b example_steps =
     [\<lparr>from_step = [], to_step = ''step_c'', branch = Some ''if'', line_number = Some 5\<rparr>,
      \<lparr>from_step = [], to_step = ''step_d'', branch = Some ''else'', line_number = Some 7\<rparr>,
      \<lparr>from_step = [], to_step = ''step_e'', branch = Some ''if'', line_number = Some 8\<rparr>]"
  using branch_label_innermost [of example_step_b example_steps]
  by (simp add: example_step_b_sites example_steps_def)

text \<open>
  C5. When the empty string is not among the known step names (it is no identifier, and
  the truth test of \<^verbatim>\<open>visit_Call\<close> rejects it), the visitor records one edge for each
  call site whose candidate target is a known step name and nothing for any other call
  site. The visitor returns a list of edges and nothing else: it has no error and no
  diagnostic to give.
\<close>

theorem edge_iff_known_step:
  "[] \<notin> S \<Longrightarrow>
   find_step_calls fn S = map site_edge (filter (\<lambda>s. fst s \<in> S) (call_sites [] fn))"
proof -
  assume "[] \<notin> S"
  then have "(\<lambda>s::call_site. fst s \<noteq> [] \<and> fst s \<in> S) = (\<lambda>s. fst s \<in> S)"
    by auto
  then show ?thesis by (simp add: find_step_calls_sites site_edges_def)
qed

theorem edge_iff_known_step_witness:
  "[] \<notin> {''step_c'', ''step_e''} \<and>
   find_step_calls example_step_b {''step_c'', ''step_e''} =
     [\<lparr>from_step = [], to_step = ''step_c'', branch = Some ''if'', line_number = Some 5\<rparr>,
      \<lparr>from_step = [], to_step = ''step_e'', branch = Some ''if'', line_number = Some 8\<rparr>]"
proof -
  have h: "[] \<notin> {''step_c'', ''step_e''}" by simp
  show ?thesis using h edge_iff_known_step [OF h, of example_step_b]
    by (simp add: example_step_b_sites site_edge_def)
qed

lemma call_target_map_tests: "call_target (map_tests g f) = call_target f"
proof (cases f)
  case (Attribute x a)
  then show ?thesis by (cases x) simp_all
qed simp_all

lemma call_sites_map_tests:
  "call_sites p (map_tests g n) = call_sites p n"
  "call_sites_keyword p (map_tests_keyword g k) = call_sites_keyword p k"
proof (induction g n and g k arbitrary: p and p rule: map_tests_map_tests_keyword.induct)
  case (1 g f as kws ln)
  then show ?case by (simp add: call_target_map_tests comp_def cong: map_cong)
qed (simp_all add: comp_def cong: map_cong)

text \<open>
  C9. The edges of a step body do not depend on the conditions of its \<^verbatim>\<open>if\<close> statements:
  rewriting every condition in any way leaves the recorded edges as they are, so a call
  to a known step inside a condition is never visited and produces no edge.
\<close>

theorem condition_calls_ignored: "find_step_calls (map_tests g fn) S = find_step_calls fn S"
  by (simp add: find_step_calls_sites call_sites_map_tests)

theorem condition_calls_ignored_witness:
  "find_step_calls (map_tests (\<lambda>t. Constant (CBool True)) example_step_b) example_steps =
     find_step_calls example_step_b example_steps \<and>
   ''step_a'' \<in> example_steps \<and>
   ''step_a'' \<notin> set (map to_step (find_step_calls example_step_b example_steps))"
  using condition_calls_ignored [of "\<lambda>t. Constant (CBool True)" example_step_b example_steps]
  by (simp add: find_step_calls_sites example_step_b_sites site_edges_def site_edge_def
      example_steps_def)

section \<open>Properties of the tag arguments\<close>

lemma extract_keyword_warnings:
  "snd (extract_keyword k st) = snd st @ map skip_warning (dynamic_args [k])"
  by (induction k st rule: extract_keyword.induct) (simp_all add: dynamic_args_def)

lemma dynamic_args_Cons: "dynamic_args (k # kws) = dynamic_args [k] @ dynamic_args kws"
  by (simp add: dynamic_args_def)

lemma fold_extract_keyword_warnings:
  "snd (fold extract_keyword kws st) = snd st @ map skip_warning (dynamic_args kws)"
proof (induction kws arbitrary: st)
  case Nil
  then show ?case by (simp add: dynamic_args_def)
next
  case (Cons k kws)
  show ?case
    using Cons [of "extract_keyword k st"] dynamic_args_Cons [of k kws]
    by (simp add: extract_keyword_warnings)
qed

lemma extract_keyword_args:
  "\<not> passes_string a k \<Longrightarrow> fst (extract_keyword k st) a = fst st a"
  by (induction k st rule: extract_keyword.induct) (simp_all add: passes_string_def)

lemma fold_extract_keyword_args:
  "\<not> list_ex (passes_string a) kws \<Longrightarrow> fst (fold extract_keyword kws st) a = fst st a"
  by (induction kws arbitrary: st) (simp_all add: extract_keyword_args)

lemma skip_warning_inj: "skip_warning a = skip_warning b \<Longrightarrow> a = b"
  by (simp add: skip_warning_def)




text \<open>
  C10. Every warning of a tag names a keyword argument of the tag whose value is not a
  constant. When every value that the tag passes under a name is a constant that is not
  a string, the field of that name takes its default and no warning names it.
\<close>

theorem constant_argument_silent:
  "(\<forall>w \<in> set (snd (extract_decorator_args (Call f as kws ln))).
      \<exists>k \<in> set kws. \<not> is_constant (keyword_value k) \<and>
        (\<exists>a. keyword_arg k = Some a \<and> w = skip_warning a)) \<and>
   ((\<forall>k \<in> set kws. keyword_arg k = Some a \<longrightarrow>
        is_constant (keyword_value k) \<and> \<not> is_string_constant (keyword_value k)) \<longrightarrow>
      get_default (fst (extract_decorator_args (Call f as kws ln))) a dflt = dflt \<and>
      skip_warning a \<notin> set (snd (extract_decorator_args (Call f as kws ln))))"
proof -
  have w: "snd (extract_decorator_args (Call f as kws ln)) = map skip_warning (dynamic_args kws)"
    by (simp add: fold_extract_keyword_warnings)
  have 1: "\<forall>w \<in> set (map skip_warning (dynamic_args kws)).
      \<exists>k \<in> set kws. \<not> is_constant (keyword_value k) \<and>
        (\<exists>a. keyword_arg k = Some a \<and> w = skip_warning a)"
    by (auto simp add: dynamic_args_def split: option.splits if_splits) metis
  have 2: "get_default (fst (extract_decorator_args (Call f as kws ln))) a dflt = dflt"
    if "\<forall>k \<in> set kws. keyword_arg k = Some a \<longrightarrow>
        is_constant (keyword_value k) \<and> \<not> is_string_constant (keyword_value k)"
  proof -
    from that have "\<not> list_ex (passes_string a) kws"
      by (auto simp add: list_ex_iff passes_string_def)
    then show ?thesis by (simp add: fold_extract_keyword_args get_default_def)
  qed
  have 3: "skip_warning a \<notin> set (map skip_warning (dynamic_args kws))"
    if "\<forall>k \<in> set kws. keyword_arg k = Some a \<longrightarrow>
        is_constant (keyword_value k) \<and> \<not> is_string_constant (keyword_value k)"
    using that
    by (auto simp add: dynamic_args_def dest!: skip_warning_inj split: option.splits if_splits)
  show ?thesis using 1 2 3 unfolding w by blast
qed

theorem constant_argument_silent_witness:
  "snd (extract_decorator_args (Call (Name ''step'') [] numbered_keywords 1)) = [] \<and>
   get_default (fst (extract_decorator_args (Call (Name ''step'') [] numbered_keywords 1)))
     ''name'' ''ship'' = ''ship''"
  using constant_argument_silent [of "Name ''step''" "[]" numbered_keywords 1 "''name''" "''ship''"]
  by (simp add: numbered_keywords_def get_default_def)

section \<open>Properties of the registry\<close>

lemma endswith_iff: "endswith s t \<longleftrightarrow> (\<exists>p. s = p @ t)"
proof
  assume e: "endswith s t"
  have "s = take (length s - length t) s @ drop (length s - length t) s" by simp
  with e have "s = take (length s - length t) s @ t" by (simp add: endswith_def)
  then show "\<exists>p. s = p @ t" ..
next
  assume "\<exists>p. s = p @ t"
  then obtain p where "s = p @ t" ..
  then show "endswith s t" by (simp add: endswith_def)
qed

lemma takeWhile_no_dot:
  "CHR ''.'' \<notin> set n \<Longrightarrow> takeWhile (\<lambda>c. c \<noteq> CHR ''.'') (rev n @ CHR ''.'' # r) = rev n"
  by (induction n rule: rev_induct) auto

lemma trailing_segment_append:
  assumes "CHR ''.'' \<notin> set n"
  shows "trailing_segment (p @ CHR ''.'' # n) = n"
proof -
  have "rev (p @ CHR ''.'' # n) = rev n @ CHR ''.'' # rev p" by simp
  then show ?thesis
    unfolding trailing_segment_def using takeWhile_no_dot [OF assms, of "rev p"] by simp
qed

lemma trailing_segment_split:
  "q = trailing_segment q \<or> (\<exists>p. q = p @ CHR ''.'' # trailing_segment q)"
proof -
  define r where "r = rev q"
  define tk where "tk = takeWhile (\<lambda>c. c \<noteq> CHR ''.'') r"
  define dr where "dr = dropWhile (\<lambda>c. c \<noteq> CHR ''.'') r"
  have r: "r = tk @ dr" by (simp add: tk_def dr_def)
  have q: "q = rev dr @ rev tk"
  proof -
    have "rev r = rev dr @ rev tk" using r by simp
    then show ?thesis by (simp add: r_def)
  qed
  have t: "trailing_segment q = rev tk" by (simp add: trailing_segment_def tk_def r_def)
  show ?thesis
  proof (cases dr)
    case Nil
    with q t show ?thesis by simp
  next
    case (Cons c cs)
    have "\<not> (hd dr \<noteq> CHR ''.'')"
      unfolding dr_def using Cons dr_def hd_dropWhile [of "\<lambda>c. c \<noteq> CHR ''.''" r] by simp
    with Cons have "c = CHR ''.''" by simp
    with q t Cons have "q = rev cs @ CHR ''.'' # trailing_segment q" by simp
    then show ?thesis by blast
  qed
qed

text \<open>
  For a name without separator that is not itself the key, ending with the separator and
  the name is the same as having the name as trailing segment.
\<close>

lemma suffix_match_iff:
  assumes "CHR ''.'' \<notin> set n" and "q \<noteq> n"
  shows "endswith q (CHR ''.'' # n) \<longleftrightarrow> trailing_segment q = n"
proof
  assume "endswith q (CHR ''.'' # n)"
  then obtain p where "q = p @ CHR ''.'' # n" unfolding endswith_iff ..
  then show "trailing_segment q = n" using trailing_segment_append [OF assms(1), of p] by simp
next
  assume t: "trailing_segment q = n"
  from trailing_segment_split [of q] t assms(2) obtain p where "q = p @ CHR ''.'' # n" by auto
  then show "endswith q (CHR ''.'' # n)" unfolding endswith_iff by blast
qed

lemma payments_registry_steps:
  "registry_steps payments_registry = [(''shop.payments.charge'', charge_step)]"
  by (simp add: payments_registry_def register_def empty_registry_def charge_step_def Let_def)

text \<open>
  C2, as amended. For every registry state and every pair of a calling module path and a
  called name that contains no separator, \<^verbatim>\<open>resolve\<close> returns the first success of the
  three rules of the specification, in order, and nothing when none succeeds.
\<close>

theorem resolve_simple_name:
  assumes "CHR ''.'' \<notin> set call_name"
  shows "resolve reg from_module call_name = resolve_spec reg from_module call_name"
proof (cases "map_of (registry_steps reg) call_name")
  case None
  then have ne: "\<And>item. item \<in> set (registry_steps reg) \<Longrightarrow> fst item \<noteq> call_name"
    by (auto simp add: map_of_eq_None_iff)
  have f: "find (\<lambda>item. endswith (fst item) (''.'' @ call_name)) (registry_steps reg) =
         find (\<lambda>item. trailing_segment (fst item) = call_name) (registry_steps reg)"
  proof (rule find_cong)
    show "registry_steps reg = registry_steps reg" ..
  next
    fix item assume "item \<in> set (registry_steps reg)"
    then have "fst item \<noteq> call_name" by (rule ne)
    then show "endswith (fst item) (''.'' @ call_name) =
                 (trailing_segment (fst item) = call_name)"
      using suffix_match_iff [OF assms] by simp
  qed
  show ?thesis unfolding resolve_def resolve_spec_def f ..
next
  case (Some s)
  then show ?thesis by (simp add: resolve_def resolve_spec_def)
qed

theorem resolve_simple_name_witness:
  "CHR ''.'' \<notin> set ''charge'' \<and>
   resolve payments_registry ''shop.orders'' ''charge'' = Some charge_step \<and>
   resolve_spec payments_registry ''shop.orders'' ''charge'' = Some charge_step"
proof -
  have h: "CHR ''.'' \<notin> set ''charge''" by simp
  have "resolve payments_registry ''shop.orders'' ''charge'' = Some charge_step"
    by (simp add: resolve_def payments_registry_steps endswith_def)
  with h resolve_simple_name [OF h, of payments_registry "''shop.orders''"] show ?thesis
    by simp
qed

text \<open>
  The claim as stated fails for a called name with a separator: the key
  \<^verbatim>\<open>shop.payments.charge\<close> ends with \<^verbatim>\<open>.payments.charge\<close>, so the third rule of the code
  finds it, while its trailing segment \<^verbatim>\<open>charge\<close> is not the called name.
\<close>

theorem resolve_qualified_counterexample:
  "resolve payments_registry ''shop.orders'' ''payments.charge'' = Some charge_step \<and>
   resolve_spec payments_registry ''shop.orders'' ''payments.charge'' = None"
  by (simp add: resolve_def resolve_spec_def payments_registry_steps endswith_def
      trailing_segment_def)

section \<open>Properties of the two passes\<close>








section \<open>Properties of the assembled flows\<close>





lemma update_key_set: "fst ` set (AList.update k v al) = insert k (fst ` set al)"
  using AList.dom_update [of k v al] by simp

























section \<open>Steps and flows of a file\<close>

text \<open>
  The three spellings of a step tag are recognised, and the names under which the steps
  of a file are collected are those of the tagged function definitions that \<^verbatim>\<open>ast.walk\<close>
  reaches.
\<close>

lemma step_tag_spellings:
  "s \<in> STEP_DECORATOR_NAMES \<Longrightarrow>
   is_step_decorator (Name s) \<and> is_step_decorator (Call (Name s) as kws ln) \<and>
   is_step_decorator (Call (Attribute x s) as kws ln)"
  by simp

lemma fold_collect_step_keys:
  "fst ` set (fold collect_step xs al) =
     fst ` set al \<union>
     {node_name n | n. Inl n \<in> set xs \<and> is_function_def n \<and> has_step_decorator n}"
proof (induction xs arbitrary: al)
  case Nil
  then show ?case by simp
next
  case (Cons x xs)
  show ?case
  proof (cases x)
    case (Inl n)
    then show ?thesis
      unfolding fold_simps Cons.IH by (auto simp add: update_key_set)
  next
    case (Inr k)
    then show ?thesis
      unfolding fold_simps Cons.IH by auto
  qed
qed

lemma step_names_tagged:
  "step_names tree =
     {node_name n | n. Inl n \<in> set (walk [Inl tree]) \<and> is_function_def n \<and> has_step_decorator n}"
  unfolding step_names_def collect_all_steps_def fold_collect_step_keys by simp

text \<open>
  The number of flows of a file: one for each class of the module body with a flow tag,
  and one more when \<^verbatim>\<open>_extract_function_steps\<close> returns a function.
\<close>

lemma extract_class_flow_None:
  "fst (extract_class_flow n all_known) = None \<longleftrightarrow> \<not> has_flow_decorator n"
  by (simp add: extract_class_flow_def Let_def)

lemma add_class_flow_count:
  "length (fst (add_class_flow all_known n st)) =
     length (fst st) + (if is_class_def n \<and> has_flow_decorator n then 1 else 0)"
proof (cases "extract_class_flow n all_known")
  case (Pair r w)
  with extract_class_flow_None [of n all_known] show ?thesis
    by (cases r) (auto simp add: add_class_flow_def)
qed

lemma fold_add_class_flow_count:
  "length (fst (fold (add_class_flow all_known) ns st)) =
     length (fst st) + length (filter (\<lambda>n. is_class_def n \<and> has_flow_decorator n) ns)"
  by (induction ns arbitrary: st) (simp_all add: add_class_flow_count)

lemma tree_flows_count:
  "length (fst (tree_flows tree call_known local_known)) =
     length (filter (\<lambda>n. is_class_def n \<and> has_flow_decorator n) (node_body tree)) +
     (if extract_function_steps tree local_known = [] then 0 else 1)"
  by (simp add: tree_flows_def Let_def fold_add_class_flow_count)

text \<open>
  C3. Every function with a step tag is collected, and no function without a step tag is
  a step of a flow. The second half fails in the code: \<^verbatim>\<open>_extract_function_steps\<close> takes
  every function of the module body whose name is a key of \<^verbatim>\<open>all_steps\<close>, whether it has
  a tag or not. The top-level function \<^verbatim>\<open>notify\<close> of the module \<open>shadowing_module\<close> has no
  tag, and is the only step of the flow that \<^verbatim>\<open>parse_file\<close> returns.
\<close>

theorem untagged_function_is_step:
  "\<not> has_step_decorator untagged_notify \<and>
   parse_file ''mail.py'' (Inr shadowing_module) =
     Inr ([\<lparr>flow_name = ''Function Flow'', flow_type = ''function'',
             steps = [\<lparr>name = ''notify'', function_name = ''notify'', description = [],
                       docstring = None, calls = []\<rparr>],
             edges = [],
             flow_description = ''Flow derived from standalone function''\<rparr>], [])"
  by code_simp

text \<open>
  C7. A file yields one flow for each flow container and one implicit flow when it has
  tagged top-level functions; a file with neither yields no flow. The last part fails in
  the code, for the same reason: \<open>shadowing_module\<close> has no class with a flow tag and no
  tagged function in its body, and \<^verbatim>\<open>parse_file\<close> returns one flow for it.
\<close>

theorem flow_without_container_or_step:
  "\<not> list_ex (\<lambda>n. is_class_def n \<and> has_flow_decorator n) (node_body shadowing_module) \<and>
   \<not> list_ex (\<lambda>n. is_function_def n \<and> has_step_decorator n) (node_body shadowing_module) \<and>
   map_sum id (\<lambda>r. map flow_type (fst r)) (parse_file ''mail.py'' (Inr shadowing_module)) =
     Inr [''function'']"
  by code_simp

end
